theory Spec2Isabelle
  imports Main "HOL-Library.AList" "HOL-Library.Sublist"
begin

section \<open>The file tracker service (packages/core/src/utils/fileTrackerService.ts)\<close>

text \<open>
  A shallow embedding of the class \<open>FileTrackerService\<close>. The service object is a record
  that every method takes and returns; the JavaScript \<open>Map\<close> of tracked files is an
  association list in insertion order (\<open>Map.set\<close> on a present key replaces the value
  where it stands, on an absent key appends; \<open>Map.delete\<close> removes the key). Thrown
  values are values of the type \<open>thrown\<close>. Each \<open>new Date()\<close> of the source is a clock
  reading passed to the method as an argument of its own (milliseconds since the epoch),
  in the order the source takes the readings.
\<close>

subsection \<open>Data\<close>

datatype FileStatus = NOT_READ | READ_CURRENT | READ_STALE | READ_ERROR

text \<open>
  The snapshot type \<open>FileState\<close> is declared in \<open>fileStateTracker\<close>, which is not among the
  sources; the service only stores and passes it on, so it is the type parameter \<open>'s\<close>.
\<close>

record 's FileEntry =
  path :: string
  state :: 's
  status :: FileStatus
  firstReadAt :: int
  lastUpdatedAt :: int
  error :: "string option"

record FileTrackerServiceOptions =
  useContentHash :: bool
  generateDiffs :: bool
  maxTrackedFiles :: int
  trackAllFiles :: bool

record 's FileTrackerService =
  trackedFiles :: "(string \<times> 's FileEntry) list"
  options :: FileTrackerServiceOptions

text \<open>
  What a \<open>catch\<close> clause can receive: an \<open>Error\<close> object with its message, or any other
  value, given by its \<open>String(...)\<close> conversion.
\<close>

datatype thrown = ErrorObject string | OtherValue string

text \<open>\<open>error instanceof Error ? error.message : String(error)\<close>\<close>

fun errorMessage :: "thrown \<Rightarrow> string" where
  "errorMessage (ErrorObject message) = message"
| "errorMessage (OtherValue str) = str"

record FileFreshnessResult =
  isFresh :: bool

text \<open>
  The collaborator \<open>FileStateTracker\<close> (module \<open>fileStateTracker\<close>, not among the sources)
  is a parameter of every method that awaits it: what its two methods answer during that
  call, \<open>Inl\<close> for a rejected promise and \<open>Inr\<close> for a resolved one. Nothing is assumed about
  the answers.
\<close>

record 's FileStateTracker =
  checkFreshness :: "string \<Rightarrow> 's \<Rightarrow> thrown + FileFreshnessResult"
  getFileState :: "string \<Rightarrow> thrown + 's"

subsection \<open>Constructor\<close>

text \<open>\<open>options.x ?? default\<close>: an option the caller left out is \<open>None\<close>.\<close>

definition nullish :: "'a option \<Rightarrow> 'a \<Rightarrow> 'a" where
  "nullish v d = (case v of None \<Rightarrow> d | Some x \<Rightarrow> x)"

definition new_FileTrackerService ::
  "bool option \<Rightarrow> bool option \<Rightarrow> int option \<Rightarrow> bool option \<Rightarrow> 's FileTrackerService" where
  "new_FileTrackerService uch gd mtf taf =
     \<lparr>trackedFiles = [],
      options = \<lparr>useContentHash = nullish uch False,
                 generateDiffs = nullish gd True,
                 maxTrackedFiles = nullish mtf 1000,
                 trackAllFiles = nullish taf False\<rparr>\<rparr>"

subsection \<open>Eviction\<close>

text \<open>
  The loop of \<open>evictOldestEntry\<close> over \<open>trackedFiles.entries()\<close>, with its two variables
  \<open>oldestPath\<close> and \<open>oldestTime\<close>.
\<close>

fun evict_scan :: "(string \<times> 's FileEntry) list \<Rightarrow> string option \<Rightarrow> int \<Rightarrow> string option" where
  "evict_scan [] oldestPath oldestTime = oldestPath"
| "evict_scan ((p, entry) # rest) oldestPath oldestTime =
     (if firstReadAt entry < oldestTime
      then evict_scan rest (Some p) (firstReadAt entry)
      else evict_scan rest oldestPath oldestTime)"

text \<open>
  \<open>now\<close> is the reading of \<open>let oldestTime = new Date()\<close>. The test \<open>if (oldestPath)\<close> is
  false for \<open>undefined\<close> and for the empty string.
\<close>

definition evictOldestEntry :: "int \<Rightarrow> 's FileTrackerService \<Rightarrow> 's FileTrackerService" where
  "evictOldestEntry now svc =
     (case evict_scan (trackedFiles svc) None now of
        None \<Rightarrow> svc
      | Some oldestPath \<Rightarrow>
          if oldestPath \<noteq> [] then svc\<lparr>trackedFiles := AList.delete oldestPath (trackedFiles svc)\<rparr>
          else svc)"

subsection \<open>Methods\<close>

text \<open>
  \<open>registerFile\<close>: \<open>t_first\<close> and \<open>t_last\<close> are the two \<open>new Date()\<close> readings of the entry
  literal, \<open>t_evict\<close> the one \<open>evictOldestEntry\<close> takes when it is called.
\<close>

definition registerFile ::
  "string \<Rightarrow> 's \<Rightarrow> int \<Rightarrow> int \<Rightarrow> int \<Rightarrow> 's FileTrackerService \<Rightarrow> 's FileTrackerService" where
  "registerFile filePath st t_first t_last t_evict svc =
     (let entry = \<lparr>path = filePath, state = st, status = READ_CURRENT,
                   firstReadAt = t_first, lastUpdatedAt = t_last, error = None\<rparr>;
          svc1 = svc\<lparr>trackedFiles := AList.update filePath entry (trackedFiles svc)\<rparr>
      in if int (length (trackedFiles svc1)) > maxTrackedFiles (options svc1)
         then evictOldestEntry t_evict svc1
         else svc1)"

text \<open>
  \<open>updateFileState\<close>: the result is what the promise settles to (\<open>Inl\<close>: rejected with the
  thrown value) and the service afterwards. The entry is an object of the map, so the
  assignments to its fields change the map's value at \<open>filePath\<close> in place.
\<close>

definition updateFileState ::
  "'s FileStateTracker \<Rightarrow> int \<Rightarrow> string \<Rightarrow> 's \<Rightarrow> 's FileTrackerService
     \<Rightarrow> (thrown + unit) \<times> 's FileTrackerService" where
  "updateFileState stateTracker now filePath newState svc =
     (case map_of (trackedFiles svc) filePath of
        None \<Rightarrow> (Inl (ErrorObject (''File not tracked: '' @ filePath)), svc)
      | Some entry \<Rightarrow>
          (let entry1 = entry\<lparr>state := newState, lastUpdatedAt := now\<rparr>;
               entry2 =
                 (case checkFreshness stateTracker filePath newState of
                    Inr freshnessResult \<Rightarrow>
                      entry1\<lparr>status := (if isFresh freshnessResult then READ_CURRENT else READ_STALE),
                             error := None\<rparr>
                  | Inl err \<Rightarrow>
                      entry1\<lparr>status := READ_ERROR, error := Some (errorMessage err)\<rparr>)
           in (Inr (), svc\<lparr>trackedFiles := AList.update filePath entry2 (trackedFiles svc)\<rparr>)))"

definition getFileStatus :: "'s FileTrackerService \<Rightarrow> string \<Rightarrow> 's FileEntry option" where
  "getFileStatus svc filePath = map_of (trackedFiles svc) filePath"

definition getAllTrackedFiles :: "'s FileTrackerService \<Rightarrow> 's FileEntry list" where
  "getAllTrackedFiles svc = map snd (trackedFiles svc)"

definition getFilesByStatus :: "'s FileTrackerService \<Rightarrow> FileStatus \<Rightarrow> 's FileEntry list" where
  "getFilesByStatus svc st = filter (\<lambda>entry. status entry = st) (getAllTrackedFiles svc)"

text \<open>\<open>isFileStale\<close> assigns nothing; it returns its verdict and the service as it found it.\<close>

definition isFileStale ::
  "'s FileStateTracker \<Rightarrow> string \<Rightarrow> 's FileTrackerService \<Rightarrow> bool \<times> 's FileTrackerService" where
  "isFileStale stateTracker filePath svc =
     (case map_of (trackedFiles svc) filePath of
        None \<Rightarrow> (False, svc)
      | Some entry \<Rightarrow>
          (case checkFreshness stateTracker filePath (state entry) of
             Inr freshnessResult \<Rightarrow> (\<not> isFresh freshnessResult, svc)
           | Inl err \<Rightarrow> (True, svc)))"

text \<open>
  The \<open>catch\<close> block of \<open>refreshFileState\<close>: three assignments to the entry object fetched
  at the start of the call (no effect on the map when that object is no longer in it).
\<close>

definition refresh_catch :: "string \<Rightarrow> thrown \<Rightarrow> int \<Rightarrow> 's FileTrackerService \<Rightarrow> 's FileTrackerService" where
  "refresh_catch filePath err now svc =
     svc\<lparr>trackedFiles :=
       AList.map_entry filePath
         (\<lambda>entry. entry\<lparr>status := READ_ERROR, error := Some (errorMessage err), lastUpdatedAt := now\<rparr>)
         (trackedFiles svc)\<rparr>"

text \<open>
  \<open>refreshFileState\<close>: \<open>t_update\<close> is the clock reading inside \<open>updateFileState\<close>,
  \<open>t_catch\<close> the one of the \<open>catch\<close> block.
\<close>

definition refreshFileState ::
  "'s FileStateTracker \<Rightarrow> int \<Rightarrow> int \<Rightarrow> string \<Rightarrow> 's FileTrackerService
     \<Rightarrow> bool \<times> 's FileTrackerService" where
  "refreshFileState stateTracker t_update t_catch filePath svc =
     (case map_of (trackedFiles svc) filePath of
        None \<Rightarrow> (False, svc)
      | Some entry \<Rightarrow>
          (case getFileState stateTracker filePath of
             Inl err \<Rightarrow> (False, refresh_catch filePath err t_catch svc)
           | Inr newState \<Rightarrow>
               (case updateFileState stateTracker t_update filePath newState svc of
                  (Inr u, svc') \<Rightarrow> (True, svc')
                | (Inl err, svc') \<Rightarrow> (False, refresh_catch filePath err t_catch svc'))))"

definition removeFile :: "string \<Rightarrow> 's FileTrackerService \<Rightarrow> bool \<times> 's FileTrackerService" where
  "removeFile filePath svc =
     (filePath \<in> fst ` set (trackedFiles svc),
      svc\<lparr>trackedFiles := AList.delete filePath (trackedFiles svc)\<rparr>)"

definition clear :: "'s FileTrackerService \<Rightarrow> 's FileTrackerService" where
  "clear svc = svc\<lparr>trackedFiles := []\<rparr>"

definition autoTrackFile ::
  "string \<Rightarrow> 's \<Rightarrow> int \<Rightarrow> int \<Rightarrow> int \<Rightarrow> 's FileTrackerService \<Rightarrow> 's FileTrackerService" where
  "autoTrackFile filePath st t_first t_last t_evict svc =
     (if trackAllFiles (options svc) then registerFile filePath st t_first t_last t_evict svc
      else svc)"

subsection \<open>Statistics\<close>

text \<open>
  A JavaScript number as \<open>getStats\<close> can produce it: \<open>x++\<close> on a count is the next count,
  on \<open>undefined\<close> or \<open>NaN\<close> it is \<open>NaN\<close>. The record of counts is a partial map from the
  statuses.
\<close>

datatype jsnumber = Num nat | NaN

definition increment :: "jsnumber option \<Rightarrow> jsnumber" where
  "increment v = (case v of Some (Num n) \<Rightarrow> Num (n + 1) | Some NaN \<Rightarrow> NaN | None \<Rightarrow> NaN)"

text \<open>\<open>Object.values(FileStatus)\<close>, in declaration order.\<close>

definition FileStatus_values :: "FileStatus list" where
  "FileStatus_values = [NOT_READ, READ_CURRENT, READ_STALE, READ_ERROR]"

definition getStats :: "'s FileTrackerService \<Rightarrow> (FileStatus \<rightharpoonup> jsnumber)" where
  "getStats svc =
     fold (\<lambda>entry stats. stats(status entry \<mapsto> increment (stats (status entry))))
          (map snd (trackedFiles svc))
          (fold (\<lambda>st acc. acc(st \<mapsto> Num 0)) FileStatus_values Map.empty)"

subsection \<open>Reachable services\<close>

text \<open>
  The services a caller can obtain: a freshly constructed one, and what any public method
  leaves behind, whatever the arguments, the clock readings and the tracker's answers.
\<close>

inductive reachable :: "'s FileTrackerService \<Rightarrow> bool" where
  reachable_new: "reachable (new_FileTrackerService uch gd mtf taf)"
| reachable_registerFile:
    "reachable svc \<Longrightarrow> reachable (registerFile filePath st t_first t_last t_evict svc)"
| reachable_updateFileState:
    "reachable svc \<Longrightarrow> reachable (snd (updateFileState stateTracker now filePath st svc))"
| reachable_isFileStale:
    "reachable svc \<Longrightarrow> reachable (snd (isFileStale stateTracker filePath svc))"
| reachable_refreshFileState:
    "reachable svc \<Longrightarrow> reachable (snd (refreshFileState stateTracker t_update t_catch filePath svc))"
| reachable_removeFile:
    "reachable svc \<Longrightarrow> reachable (snd (removeFile filePath svc))"
| reachable_clear:
    "reachable svc \<Longrightarrow> reachable (clear svc)"
| reachable_autoTrackFile:
    "reachable svc \<Longrightarrow> reachable (autoTrackFile filePath st t_first t_last t_evict svc)"

text \<open>
  The invariant of the map behind the reachable services: keys are distinct (it is a
  \<open>Map\<close>), every entry is stored under its own path, and no entry has status \<open>NOT_READ\<close>.
\<close>

definition entries_ok :: "(string \<times> 's FileEntry) list \<Rightarrow> bool" where
  "entries_ok al = (distinct (map fst al) \<and> (\<forall>kv \<in> set al. status (snd kv) \<noteq> NOT_READ \<and> path (snd kv) = fst kv))"

subsection \<open>Fixtures of the test suite\<close>

text \<open>
  The snapshots of \<open>fileTrackerService.test.ts\<close>: objects with \<open>content\<close>, \<open>mtime\<close> (here in
  milliseconds since the epoch) and \<open>size\<close>.
\<close>

record FileState =
  content :: string
  mtime :: int
  size' :: nat

definition helloState :: FileState where
  "helloState = \<lparr>content = ''Hello, World!'', mtime = 1704110400000, size' = 13\<rparr>"

definition universeState :: FileState where
  "universeState = \<lparr>content = ''Hello, Universe!'', mtime = 1704112200000, size' = 15\<rparr>"

definition oneState :: FileState where
  "oneState = \<lparr>content = ''1'', mtime = 1704110400000, size' = 1\<rparr>"

text \<open>The file reads as \<open>universeState\<close> and still does when it is compared.\<close>

definition tracker_unchanged :: "FileState FileStateTracker" where
  "tracker_unchanged =
     \<lparr>checkFreshness = (\<lambda>p s. Inr \<lparr>isFresh = True\<rparr>),
      getFileState = (\<lambda>p. Inr universeState)\<rparr>"

text \<open>The file reads as \<open>universeState\<close> and has been written again when it is compared.\<close>

definition tracker_changed :: "FileState FileStateTracker" where
  "tracker_changed =
     \<lparr>checkFreshness = (\<lambda>p s. Inr \<lparr>isFresh = False\<rparr>),
      getFileState = (\<lambda>p. Inr universeState)\<rparr>"

text \<open>\<open>fs.stat\<close> and \<open>fs.readFile\<close> reject with \<open>new Error('ENOENT')\<close>.\<close>

definition tracker_enoent :: "FileState FileStateTracker" where
  "tracker_enoent =
     \<lparr>checkFreshness = (\<lambda>p s. Inl (ErrorObject ''ENOENT'')),
      getFileState = (\<lambda>p. Inl (ErrorObject ''ENOENT''))\<rparr>"

text \<open>A default service with one registered file, and one with two.\<close>

definition svc_one :: "FileState FileTrackerService" where
  "svc_one = registerFile ''/tmp/test.txt'' helloState 1000 1000 1000
               (new_FileTrackerService None None None None)"

definition svc_two :: "FileState FileTrackerService" where
  "svc_two = registerFile ''/tmp/file2.txt'' oneState 1001 1001 1001
               (registerFile ''/tmp/file1.txt'' oneState 1000 1000 1000
                  (new_FileTrackerService None None None None))"

text \<open>
  The service of the test \<open>should enforce maximum tracked files limit\<close>
  (\<open>maxTrackedFiles: 2\<close>, three files registered in a row), with every clock reading of
  the three calls in the same millisecond.
\<close>

definition svc_small_full :: "FileState FileTrackerService" where
  "svc_small_full =
     registerFile ''/tmp/file3.txt'' oneState 1000 1000 1000
       (registerFile ''/tmp/file2.txt'' oneState 1000 1000 1000
          (registerFile ''/tmp/file1.txt'' oneState 1000 1000 1000
             (new_FileTrackerService None None (Some 2) None)))"

text \<open>
  The first two of these calls with the clock one millisecond further at every reading,
  which fills the service, and then all three.
\<close>

definition svc_small_two :: "FileState FileTrackerService" where
  "svc_small_two =
     registerFile ''/tmp/file2.txt'' oneState 1002 1003 1003
       (registerFile ''/tmp/file1.txt'' oneState 1000 1001 1001
          (new_FileTrackerService None None (Some 2) None))"

definition svc_small_ticking :: "FileState FileTrackerService" where
  "svc_small_ticking =
     registerFile ''/tmp/file3.txt'' oneState 1004 1005 1006
       (registerFile ''/tmp/file2.txt'' oneState 1002 1003 1003
          (registerFile ''/tmp/file1.txt'' oneState 1000 1001 1001
             (new_FileTrackerService None None (Some 2) None)))"

text \<open>The service \<open>svc_small_full\<close> after a refresh of its first file that could not read it.\<close>

definition svc_small_error :: "FileState FileTrackerService" where
  "svc_small_error =
     snd (refreshFileState tracker_enoent 1000 1000 ''/tmp/file1.txt'' svc_small_full)"

text \<open>
  A service for one file (\<open>maxTrackedFiles: 1\<close>) with one file registered when the clock
  read 1000, and one with the file registered when the clock read 2000.
\<close>

definition svc_cap1_one :: "FileState FileTrackerService" where
  "svc_cap1_one =
     registerFile ''/tmp/a.txt'' oneState 1000 1000 1000
       (new_FileTrackerService None None (Some 1) None)"

definition svc_cap1_late :: "FileState FileTrackerService" where
  "svc_cap1_late =
     registerFile ''/tmp/a.txt'' oneState 2000 2000 2000
       (new_FileTrackerService None None (Some 1) None)"

lemmas fixture_defs =
  svc_one_def svc_two_def svc_small_full_def svc_small_two_def svc_small_ticking_def
  svc_small_error_def
  svc_cap1_one_def svc_cap1_late_def new_FileTrackerService_def nullish_def registerFile_def
  evictOldestEntry_def helloState_def universeState_def oneState_def
  tracker_unchanged_def tracker_changed_def tracker_enoent_def

section \<open>Properties\<close>

subsection \<open>Auxiliary facts\<close>

lemma map_of_map_entry_same:
  "map_of (AList.map_entry k f al) k = map_option f (map_of al k)"
  by (simp add: map_of_map_entry split: option.splits)

lemma set_update_cases: "kv \<in> set (AList.update k v al) \<Longrightarrow> kv = (k, v) \<or> kv \<in> set al"
  by (induction al) (auto split: if_splits)

lemma set_delete_subset: "set (AList.delete k al) \<subseteq> set al"
  by (auto simp: AList.delete_eq)

lemma set_map_entry_cases:
  "kv \<in> set (AList.map_entry k f al) \<Longrightarrow> kv \<in> set al \<or> (\<exists>v. (k, v) \<in> set al \<and> kv = (k, f v))"
  by (induction al) (auto split: if_splits)

lemma entries_ok_update:
  "entries_ok al \<Longrightarrow> status e \<noteq> NOT_READ \<Longrightarrow> path e = k \<Longrightarrow> entries_ok (AList.update k e al)"
  unfolding entries_ok_def
  by (auto simp: distinct_update dest!: set_update_cases)

lemma entries_ok_delete: "entries_ok al \<Longrightarrow> entries_ok (AList.delete k al)"
  unfolding entries_ok_def
  using set_delete_subset[of k al] by (auto simp: distinct_delete)

lemma entries_ok_map_entry:
  "entries_ok al \<Longrightarrow> (\<And>e. status (f e) \<noteq> NOT_READ \<and> path (f e) = path e) \<Longrightarrow> entries_ok (AList.map_entry k f al)"
  unfolding entries_ok_def
  by (auto simp: distinct_map_entry dest!: set_map_entry_cases)

lemma entries_ok_map_of:
  "entries_ok al \<Longrightarrow> map_of al k = Some e \<Longrightarrow> status e \<noteq> NOT_READ \<and> path e = k"
  unfolding entries_ok_def
  by (auto dest!: map_of_SomeD)

lemma entries_ok_evictOldestEntry:
  "entries_ok (trackedFiles svc) \<Longrightarrow> entries_ok (trackedFiles (evictOldestEntry now svc))"
  by (auto simp: evictOldestEntry_def entries_ok_delete split: option.splits)

lemma entries_ok_registerFile:
  "entries_ok (trackedFiles svc) \<Longrightarrow> entries_ok (trackedFiles (registerFile filePath st t1 t2 t3 svc))"
  by (auto simp: registerFile_def Let_def intro!: entries_ok_evictOldestEntry entries_ok_update)

lemma entries_ok_updateFileState:
  "entries_ok (trackedFiles svc) \<Longrightarrow> entries_ok (trackedFiles (snd (updateFileState tr now filePath st svc)))"
  by (auto simp: updateFileState_def Let_def intro!: entries_ok_update dest: entries_ok_map_of
           split: option.splits sum.splits)

lemma entries_ok_refresh_catch:
  "entries_ok (trackedFiles svc) \<Longrightarrow> entries_ok (trackedFiles (refresh_catch filePath err now svc))"
  by (auto simp: refresh_catch_def intro!: entries_ok_map_entry)

lemma entries_ok_refreshFileState:
  assumes "entries_ok (trackedFiles svc)"
  shows "entries_ok (trackedFiles (snd (refreshFileState tr tu tc filePath svc)))"
proof (cases "map_of (trackedFiles svc) filePath")
  case None
  then show ?thesis using assms by (simp add: refreshFileState_def)
next
  case (Some entry)
  show ?thesis
  proof (cases "getFileState tr filePath")
    case (Inl err)
    then show ?thesis using assms Some
      by (simp add: refreshFileState_def entries_ok_refresh_catch)
  next
    case (Inr newState)
    obtain r svc' where u: "updateFileState tr tu filePath newState svc = (r, svc')"
      by (cases "updateFileState tr tu filePath newState svc")
    have ok: "entries_ok (trackedFiles svc')"
      using entries_ok_updateFileState[OF assms, of tr tu filePath newState] u by simp
    show ?thesis using Some Inr u ok
      by (cases r) (simp_all add: refreshFileState_def entries_ok_refresh_catch)
  qed
qed

lemma reachable_entries_ok: "reachable svc \<Longrightarrow> entries_ok (trackedFiles svc)"
proof (induction rule: reachable.induct)
  case (reachable_new uch gd mtf taf)
  show ?case by (simp add: new_FileTrackerService_def entries_ok_def)
next
  case (reachable_isFileStale svc stateTracker filePath)
  then show ?case by (auto simp: isFileStale_def split: option.splits sum.splits)
next
  case (reachable_removeFile svc filePath)
  then show ?case by (simp add: removeFile_def entries_ok_delete)
next
  case (reachable_clear svc)
  show ?case by (simp add: clear_def entries_ok_def)
next
  case (reachable_autoTrackFile svc filePath st t_first t_last t_evict)
  then show ?case by (simp add: autoTrackFile_def entries_ok_registerFile)
qed (simp_all add: entries_ok_registerFile entries_ok_updateFileState entries_ok_refreshFileState)

lemma fold_counts:
  "\<forall>s. \<exists>n. stats s = Some (Num n) \<Longrightarrow> stats st = Some (Num k) \<Longrightarrow>
   fold (\<lambda>entry stats. stats(status entry \<mapsto> increment (stats (status entry)))) es stats st
     = Some (Num (k + length (filter (\<lambda>entry. status entry = st) es)))"
proof (induction es arbitrary: stats k)
  case Nil
  then show ?case by simp
next
  case (Cons e es)
  let ?stats' = "stats(status e \<mapsto> increment (stats (status e)))"
  from Cons.prems(1) obtain m where m: "stats (status e) = Some (Num m)" by blast
  have all: "\<forall>s. \<exists>n. ?stats' s = Some (Num n)"
    using Cons.prems(1) m by (simp add: increment_def)
  have at: "?stats' st = Some (Num (if status e = st then k + 1 else k))"
    using Cons.prems(2) m by (auto simp: increment_def)
  show ?case
    using Cons.IH[OF all at] by simp
qed

lemma initial_counts:
  "fold (\<lambda>st acc. acc(st \<mapsto> Num 0)) FileStatus_values Map.empty st = Some (Num 0)"
  by (cases st) (simp_all add: FileStatus_values_def)

lemma getStats_count:
  "getStats svc st = Some (Num (length (getFilesByStatus svc st)))"
  unfolding getStats_def getFilesByStatus_def getAllTrackedFiles_def
proof -
  have "\<forall>s. \<exists>n. fold (\<lambda>st acc. acc(st \<mapsto> Num 0)) FileStatus_values Map.empty s = Some (Num n)"
    by (simp add: initial_counts)
  from fold_counts[OF this initial_counts, where es = "map snd (trackedFiles svc)" and st = st]
  show "fold (\<lambda>entry stats. stats(status entry \<mapsto> increment (stats (status entry))))
          (map snd (trackedFiles svc))
          (fold (\<lambda>st acc. acc(st \<mapsto> Num 0)) FileStatus_values Map.empty) st =
        Some (Num (length (filter (\<lambda>entry. status entry = st) (map snd (trackedFiles svc)))))"
    by (simp only: add_0)
qed

lemma status_partition:
  "length (filter (\<lambda>entry. status entry = NOT_READ) es) +
   length (filter (\<lambda>entry. status entry = READ_CURRENT) es) +
   length (filter (\<lambda>entry. status entry = READ_STALE) es) +
   length (filter (\<lambda>entry. status entry = READ_ERROR) es) = length es"
proof (induction es)
  case Nil
  show ?case by simp
next
  case (Cons e es)
  then show ?case by (cases "status e") simp_all
qed

lemma entries_ok_no_not_read:
  "entries_ok al \<Longrightarrow> filter (\<lambda>entry. status entry = NOT_READ) (map snd al) = []"
  unfolding entries_ok_def by (auto simp: filter_empty_conv)

lemma length_update_if:
  "length (AList.update k v al) = (if k \<in> fst ` set al then length al else Suc (length al))"
  by (induction al) auto

lemma map_of_evictOldestEntry:
  "map_of (trackedFiles (evictOldestEntry now svc)) p = Some e \<Longrightarrow> map_of (trackedFiles svc) p = Some e"
  by (auto simp: evictOldestEntry_def delete_conv' split: option.splits if_splits)

lemma registerFile_lookup:
  "getFileStatus (registerFile filePath st t_first t_last t_evict svc) filePath = Some entry \<Longrightarrow>
   entry = \<lparr>path = filePath, state = st, status = READ_CURRENT,
            firstReadAt = t_first, lastUpdatedAt = t_last, error = None\<rparr>"
  by (auto simp: registerFile_def getFileStatus_def Let_def update_conv'
           dest!: map_of_evictOldestEntry split: if_splits)

lemma registerFile_no_overflow:
  "int (length (AList.update filePath \<lparr>path = filePath, state = st, status = READ_CURRENT,
            firstReadAt = t_first, lastUpdatedAt = t_last, error = None\<rparr> (trackedFiles svc)))
      \<le> maxTrackedFiles (options svc) \<Longrightarrow>
   registerFile filePath st t_first t_last t_evict svc =
     svc\<lparr>trackedFiles := AList.update filePath \<lparr>path = filePath, state = st, status = READ_CURRENT,
            firstReadAt = t_first, lastUpdatedAt = t_last, error = None\<rparr> (trackedFiles svc)\<rparr>"
  by (simp add: registerFile_def Let_def)

lemma evict_scan_no_candidate:
  "\<forall>kv \<in> set al. \<not> firstReadAt (snd kv) < t \<Longrightarrow> evict_scan al acc t = acc"
  by (induction al arbitrary: acc t) auto

lemma evict_scan_None_iff:
  "evict_scan al acc t = None \<longleftrightarrow> acc = None \<and> (\<forall>kv \<in> set al. \<not> firstReadAt (snd kv) < t)"
proof (induction al arbitrary: acc t)
  case Nil
  show ?case by simp
next
  case (Cons kv al)
  obtain p e where kv: "kv = (p, e)" by (cases kv)
  show ?case
  proof (cases "firstReadAt e < t")
    case True
    then show ?thesis using Cons.IH[of "Some p" "firstReadAt e"] kv by auto
  next
    case False
    then show ?thesis using Cons.IH[of acc t] kv by auto
  qed
qed

lemma evict_scan_pick:
  assumes "\<exists>kv \<in> set al. firstReadAt (snd kv) < t"
  shows "\<exists>pre p e post. al = pre @ (p, e) # post \<and> evict_scan al acc t = Some p \<and>
           firstReadAt e < t \<and>
           (\<forall>kv \<in> set pre. firstReadAt e < firstReadAt (snd kv)) \<and>
           (\<forall>kv \<in> set post. firstReadAt e \<le> firstReadAt (snd kv))"
  using assms
proof (induction al arbitrary: acc t)
  case Nil
  then show ?case by simp
next
  case (Cons kv al)
  obtain p0 e0 where kv: "kv = (p0, e0)" by (cases kv)
  show ?case
  proof (cases "firstReadAt e0 < t")
    case True
    show ?thesis
    proof (cases "\<exists>kv \<in> set al. firstReadAt (snd kv) < firstReadAt e0")
      case True
      from Cons.IH[OF True, of "Some p0"]
      obtain pre p e post where
        al: "al = pre @ (p, e) # post" and
        sc: "evict_scan al (Some p0) (firstReadAt e0) = Some p" and
        lt: "firstReadAt e < firstReadAt e0" and
        pre: "\<forall>kv \<in> set pre. firstReadAt e < firstReadAt (snd kv)" and
        post: "\<forall>kv \<in> set post. firstReadAt e \<le> firstReadAt (snd kv)"
        by blast
      have 1: "kv # al = ((p0, e0) # pre) @ (p, e) # post" using al kv by simp
      have 2: "evict_scan (kv # al) acc t = Some p" using sc kv \<open>firstReadAt e0 < t\<close> by simp
      have 3: "firstReadAt e < t" using lt \<open>firstReadAt e0 < t\<close> by simp
      have 4: "\<forall>kv \<in> set ((p0, e0) # pre). firstReadAt e < firstReadAt (snd kv)"
        using pre lt by simp
      from 1 2 3 4 post show ?thesis by blast
    next
      case False
      then have "evict_scan al (Some p0) (firstReadAt e0) = Some p0"
        by (intro evict_scan_no_candidate) simp
      then have 2: "evict_scan (kv # al) acc t = Some p0" using kv \<open>firstReadAt e0 < t\<close> by simp
      have 1: "kv # al = [] @ (p0, e0) # al" using kv by simp
      have 5: "\<forall>kv \<in> set al. firstReadAt e0 \<le> firstReadAt (snd kv)"
        using False by (auto simp: not_less)
      have 4: "\<forall>kv \<in> set []. firstReadAt e0 < firstReadAt (snd kv)" by simp
      from 1 2 \<open>firstReadAt e0 < t\<close> 4 5 show ?thesis by blast
    qed
  next
    case False
    with Cons.prems kv have ex: "\<exists>kv \<in> set al. firstReadAt (snd kv) < t" by auto
    from Cons.IH[OF ex, of acc]
    obtain pre p e post where
      al: "al = pre @ (p, e) # post" and
      sc: "evict_scan al acc t = Some p" and
      lt: "firstReadAt e < t" and
      pre: "\<forall>kv \<in> set pre. firstReadAt e < firstReadAt (snd kv)" and
      post: "\<forall>kv \<in> set post. firstReadAt e \<le> firstReadAt (snd kv)"
      by blast
    have 1: "kv # al = ((p0, e0) # pre) @ (p, e) # post" using al kv by simp
    have 2: "evict_scan (kv # al) acc t = Some p" using sc kv False by simp
    have 4: "\<forall>kv \<in> set ((p0, e0) # pre). firstReadAt e < firstReadAt (snd kv)"
      using pre lt False by simp
    from 1 2 lt 4 post show ?thesis by blast
  qed
qed

lemma delete_middle:
  assumes "distinct (map fst (pre @ (p, e) # post))"
  shows "AList.delete p (pre @ (p, e) # post) = pre @ post"
proof -
  from assms have "p \<notin> fst ` set pre" "p \<notin> fst ` set post" by auto
  then have "AList.delete p pre = pre" "AList.delete p post = post" by simp_all
  moreover have "AList.delete p (pre @ (p, e) # post) = AList.delete p pre @ AList.delete p post"
    by (simp add: AList.delete_eq)
  ultimately show ?thesis by simp
qed

lemma update_new_key: "k \<notin> fst ` set al \<Longrightarrow> AList.update k v al = al @ [(k, v)]"
  by (induction al) auto

lemma evictOldestEntry_split:
  assumes "distinct (map fst (trackedFiles svc))"
      and "[] \<notin> fst ` set (trackedFiles svc)"
      and "\<exists>kv \<in> set (trackedFiles svc). firstReadAt (snd kv) < now"
  shows "\<exists>pre p entry post.
           trackedFiles svc = pre @ (p, entry) # post \<and>
           trackedFiles (evictOldestEntry now svc) = pre @ post \<and>
           (\<forall>kv \<in> set pre. firstReadAt entry < firstReadAt (snd kv)) \<and>
           (\<forall>kv \<in> set post. firstReadAt entry \<le> firstReadAt (snd kv))"
proof -
  from evict_scan_pick[OF assms(3), of None]
  obtain pre p e post where
    al: "trackedFiles svc = pre @ (p, e) # post" and
    sc: "evict_scan (trackedFiles svc) None now = Some p" and
    pre: "\<forall>kv \<in> set pre. firstReadAt e < firstReadAt (snd kv)" and
    post: "\<forall>kv \<in> set post. firstReadAt e \<le> firstReadAt (snd kv)"
    by blast
  have "p \<noteq> []" using al assms(2) by force
  moreover have "AList.delete p (trackedFiles svc) = pre @ post"
    using delete_middle[of pre p e post] assms(1) al by simp
  ultimately have "trackedFiles (evictOldestEntry now svc) = pre @ post"
    using sc by (simp add: evictOldestEntry_def)
  with al pre post show ?thesis by blast
qed

lemma registerFile_new_entry_kept:
  assumes "distinct (map fst (trackedFiles svc))"
      and "filePath \<notin> fst ` set (trackedFiles svc)"
      and "\<exists>kv \<in> set (trackedFiles svc). firstReadAt (snd kv) \<le> t_first"
  shows "getFileStatus (registerFile filePath st t_first t_last t_evict svc) filePath =
           Some \<lparr>path = filePath, state = st, status = READ_CURRENT,
                 firstReadAt = t_first, lastUpdatedAt = t_last, error = None\<rparr>"
proof -
  let ?e = "\<lparr>path = filePath, state = st, status = READ_CURRENT,
                   firstReadAt = t_first, lastUpdatedAt = t_last, error = None\<rparr>"
  let ?al = "trackedFiles svc"
  let ?svc1 = "svc\<lparr>trackedFiles := AList.update filePath ?e ?al\<rparr>"
  have al1: "trackedFiles ?svc1 = ?al @ [(filePath, ?e)]"
    using assms(2) by (simp add: update_new_key)
  have look: "map_of (trackedFiles ?svc1) filePath = Some ?e" by (simp add: update_conv')
  have "evict_scan (trackedFiles ?svc1) None t_evict \<noteq> Some filePath"
  proof
    assume sc: "evict_scan (trackedFiles ?svc1) None t_evict = Some filePath"
    then have "\<exists>kv \<in> set (trackedFiles ?svc1). firstReadAt (snd kv) < t_evict"
      using evict_scan_None_iff[of "trackedFiles ?svc1" None t_evict] by auto
    from evict_scan_pick[OF this, of None]
    obtain pre p e post where
      al: "trackedFiles ?svc1 = pre @ (p, e) # post" and
      sc': "evict_scan (trackedFiles ?svc1) None t_evict = Some p" and
      pre: "\<forall>kv \<in> set pre. firstReadAt e < firstReadAt (snd kv)"
      by blast
    from sc sc' have p: "p = filePath" by simp
    have d: "distinct (map fst (trackedFiles ?svc1))" using assms(1) by (simp add: distinct_update)
    have "map_of (trackedFiles ?svc1) filePath = Some e"
      using al p d by (intro map_of_is_SomeI) auto
    with look have e: "e = ?e" by simp
    have "post = []"
    proof (rule ccontr)
      assume "post \<noteq> []"
      then obtain post' where "post = post' @ [last post]" by (metis append_butlast_last_id)
      with al al1 have "(filePath, ?e) = last post"
        by (metis append_assoc append_Cons last_snoc)
      with \<open>post \<noteq> []\<close> have "(filePath, ?e) \<in> set post" by (metis last_in_set)
      then have "filePath \<in> fst ` set post" by force
      with d al p show False by auto
    qed
    with al al1 have "pre = ?al" by simp
    with pre e assms(3) show False by force
  qed
  then have "map_of (trackedFiles (evictOldestEntry t_evict ?svc1)) filePath = Some ?e"
    using look by (auto simp: evictOldestEntry_def delete_conv' split: option.splits)
  then show ?thesis using look
    by (simp add: registerFile_def Let_def getFileStatus_def)
qed

subsection \<open>Registering a file\<close>

text \<open>
  C9. After \<open>registerFile\<close> returns, the path is tracked and its entry is the one the
  call wrote: status \<open>READ_CURRENT\<close>, the given snapshot, no error, \<open>firstReadAt\<close> the
  first and \<open>lastUpdatedAt\<close> the second clock reading of the call (equal when both
  readings fall in the same clock tick). This holds whenever the call runs no eviction
  (the map held fewer than \<open>maxTrackedFiles\<close> entries, or at most that many with the path
  among them), and also when it does, for a path that was not tracked, as long as some
  tracked entry is at least as old as the new one (the keys of the map being distinct, as
  they are in every reachable service). In every case an entry found under the path after
  the call is the one the call wrote.
\<close>

theorem registerFile_entry:
  "(int (length (trackedFiles svc)) < maxTrackedFiles (options svc) \<or>
    filePath \<in> fst ` set (trackedFiles svc) \<and>
      int (length (trackedFiles svc)) \<le> maxTrackedFiles (options svc) \<or>
    distinct (map fst (trackedFiles svc)) \<and> filePath \<notin> fst ` set (trackedFiles svc) \<and>
      (\<exists>kv \<in> set (trackedFiles svc). firstReadAt (snd kv) \<le> t_first) \<longrightarrow>
      getFileStatus (registerFile filePath st t_first t_last t_evict svc) filePath =
        Some \<lparr>path = filePath, state = st, status = READ_CURRENT,
              firstReadAt = t_first, lastUpdatedAt = t_last, error = None\<rparr>) \<and>
   (\<forall>entry. getFileStatus (registerFile filePath st t_first t_last t_evict svc) filePath = Some entry \<longrightarrow>
      status entry = READ_CURRENT \<and> state entry = st \<and> error entry = None \<and>
      firstReadAt entry = t_first \<and> lastUpdatedAt entry = t_last \<and>
      (t_first = t_last \<longrightarrow> firstReadAt entry = lastUpdatedAt entry))"
proof (intro conjI impI allI)
  let ?e = "\<lparr>path = filePath, state = st, status = READ_CURRENT,
                   firstReadAt = t_first, lastUpdatedAt = t_last, error = None\<rparr>"
  assume "int (length (trackedFiles svc)) < maxTrackedFiles (options svc) \<or>
    filePath \<in> fst ` set (trackedFiles svc) \<and>
      int (length (trackedFiles svc)) \<le> maxTrackedFiles (options svc) \<or>
    distinct (map fst (trackedFiles svc)) \<and> filePath \<notin> fst ` set (trackedFiles svc) \<and>
      (\<exists>kv \<in> set (trackedFiles svc). firstReadAt (snd kv) \<le> t_first)"
  then consider
      (room) "int (length (trackedFiles svc)) < maxTrackedFiles (options svc) \<or>
              filePath \<in> fst ` set (trackedFiles svc) \<and>
                int (length (trackedFiles svc)) \<le> maxTrackedFiles (options svc)"
    | (older) "distinct (map fst (trackedFiles svc))" "filePath \<notin> fst ` set (trackedFiles svc)"
              "\<exists>kv \<in> set (trackedFiles svc). firstReadAt (snd kv) \<le> t_first"
    by blast
  then show "getFileStatus (registerFile filePath st t_first t_last t_evict svc) filePath = Some ?e"
  proof cases
    case room
    then have "int (length (AList.update filePath ?e (trackedFiles svc))) \<le> maxTrackedFiles (options svc)"
      by (auto simp: length_update_if)
    from registerFile_no_overflow[OF this] show ?thesis
      by (simp add: getFileStatus_def update_conv')
  next
    case older
    then show ?thesis by (rule registerFile_new_entry_kept)
  qed
qed (auto dest!: registerFile_lookup)

theorem registerFile_entry_witness:
  "length (trackedFiles svc_small_two) = 2 \<and> maxTrackedFiles (options svc_small_two) = 2 \<and>
   distinct (map fst (trackedFiles svc_small_two)) \<and>
   ''/tmp/file3.txt'' \<notin> fst ` set (trackedFiles svc_small_two) \<and>
   (\<exists>kv \<in> set (trackedFiles svc_small_two). firstReadAt (snd kv) \<le> 1004) \<and>
   getFileStatus (registerFile ''/tmp/file3.txt'' oneState 1004 1005 1006 svc_small_two) ''/tmp/file3.txt'' =
     Some \<lparr>path = ''/tmp/file3.txt'', state = oneState, status = READ_CURRENT,
           firstReadAt = 1004, lastUpdatedAt = 1005, error = None\<rparr> \<and>
   map fst (trackedFiles (registerFile ''/tmp/file3.txt'' oneState 1004 1005 1006 svc_small_two)) =
     [''/tmp/file2.txt'', ''/tmp/file3.txt'']"
proof -
  have l: "length (trackedFiles svc_small_two) = 2 \<and> maxTrackedFiles (options svc_small_two) = 2"
    by (simp add: fixture_defs)
  have d: "distinct (map fst (trackedFiles svc_small_two))" by (simp add: fixture_defs)
  have k: "''/tmp/file3.txt'' \<notin> fst ` set (trackedFiles svc_small_two)" by (simp add: fixture_defs)
  have c: "\<exists>kv \<in> set (trackedFiles svc_small_two). firstReadAt (snd kv) \<le> 1004"
    by (simp add: fixture_defs)
  have r: "map fst (trackedFiles (registerFile ''/tmp/file3.txt'' oneState 1004 1005 1006 svc_small_two)) =
     [''/tmp/file2.txt'', ''/tmp/file3.txt'']"
    by (simp add: fixture_defs)
  from registerFile_entry[of svc_small_two "''/tmp/file3.txt''" 1004 oneState 1005 1006]
  have "getFileStatus (registerFile ''/tmp/file3.txt'' oneState 1004 1005 1006 svc_small_two) ''/tmp/file3.txt'' =
     Some \<lparr>path = ''/tmp/file3.txt'', state = oneState, status = READ_CURRENT,
           firstReadAt = 1004, lastUpdatedAt = 1005, error = None\<rparr>"
    using d k c by blast
  then show ?thesis using l d k c r by simp
qed

text \<open>
  C9, the condition cannot be dropped. The wall clock is set back between two
  registrations in a service for one file: the second file gets a \<open>firstReadAt\<close> smaller
  than that of every tracked entry, the eviction that its own registration triggers
  removes it, and no entry is found under its path when \<open>registerFile\<close> returns.
\<close>

theorem registerFile_entry_evicted:
  "maxTrackedFiles (options svc_cap1_late) = 1 \<and>
   map fst (trackedFiles svc_cap1_late) = [''/tmp/a.txt''] \<and>
   getFileStatus (registerFile ''/tmp/b.txt'' helloState 1000 1000 1001 svc_cap1_late) ''/tmp/b.txt'' = None \<and>
   map fst (trackedFiles (registerFile ''/tmp/b.txt'' helloState 1000 1000 1001 svc_cap1_late)) = [''/tmp/a.txt'']"
  by (simp add: getFileStatus_def fixture_defs)

text \<open>
  C10. In a service that holds at most \<open>maxTrackedFiles\<close> entries,
  registering a path that is already tracked, whatever its entry, replaces the entry as a
  whole: status \<open>READ_CURRENT\<close>, the new snapshot, no error, and \<open>firstReadAt\<close> reset to
  the clock reading of this call. The tracked paths and their order stay as they were.
\<close>

theorem registerFile_overwrite:
  assumes "getFileStatus svc filePath = Some old"
      and "int (length (trackedFiles svc)) \<le> maxTrackedFiles (options svc)"
  shows "getFileStatus (registerFile filePath st t_first t_last t_evict svc) filePath =
           Some \<lparr>path = filePath, state = st, status = READ_CURRENT,
                 firstReadAt = t_first, lastUpdatedAt = t_last, error = None\<rparr> \<and>
         map fst (trackedFiles (registerFile filePath st t_first t_last t_evict svc)) =
           map fst (trackedFiles svc)"
proof -
  let ?e = "\<lparr>path = filePath, state = st, status = READ_CURRENT,
                   firstReadAt = t_first, lastUpdatedAt = t_last, error = None\<rparr>"
  from assms(1) have key: "filePath \<in> fst ` set (trackedFiles svc)"
    by (auto simp: getFileStatus_def dest!: map_of_SomeD intro: rev_image_eqI)
  then have "int (length (AList.update filePath ?e (trackedFiles svc))) \<le> maxTrackedFiles (options svc)"
    using assms(2) by (simp add: length_update_if)
  from registerFile_no_overflow[OF this] key
  show ?thesis
    by (simp add: getFileStatus_def update_conv' update_keys)
qed

theorem registerFile_overwrite_witness:
  "getFileStatus svc_two ''/tmp/file1.txt'' =
     Some \<lparr>path = ''/tmp/file1.txt'', state = oneState, status = READ_CURRENT,
           firstReadAt = 1000, lastUpdatedAt = 1000, error = None\<rparr> \<and>
   int (length (trackedFiles svc_two)) \<le> maxTrackedFiles (options svc_two) \<and>
   getFileStatus (registerFile ''/tmp/file1.txt'' helloState 2000 2000 2000 svc_two) ''/tmp/file1.txt'' =
     Some \<lparr>path = ''/tmp/file1.txt'', state = helloState, status = READ_CURRENT,
           firstReadAt = 2000, lastUpdatedAt = 2000, error = None\<rparr> \<and>
   map fst (trackedFiles (registerFile ''/tmp/file1.txt'' helloState 2000 2000 2000 svc_two)) =
     [''/tmp/file1.txt'', ''/tmp/file2.txt'']"
proof -
  have h: "getFileStatus svc_two ''/tmp/file1.txt'' =
     Some \<lparr>path = ''/tmp/file1.txt'', state = oneState, status = READ_CURRENT,
           firstReadAt = 1000, lastUpdatedAt = 1000, error = None\<rparr>"
    by (simp add: getFileStatus_def fixture_defs)
  have c: "int (length (trackedFiles svc_two)) \<le> maxTrackedFiles (options svc_two)"
    by (simp add: fixture_defs)
  have k: "map fst (trackedFiles svc_two) = [''/tmp/file1.txt'', ''/tmp/file2.txt'']"
    by (simp add: fixture_defs)
  from registerFile_overwrite[OF h c, of helloState 2000 2000 2000]
  show ?thesis using h c k by simp
qed

text \<open>
  C10, the bound on the size cannot be dropped: in a reachable service that holds more
  entries than \<open>maxTrackedFiles\<close>, the path is tracked with status \<open>READ_ERROR\<close> and an
  error message, and after registering it again it is not tracked at all.
\<close>

theorem registerFile_overwrite_evicted:
  "reachable svc_small_error \<and> maxTrackedFiles (options svc_small_error) = 2 \<and>
   getFileStatus svc_small_error ''/tmp/file1.txt'' =
     Some \<lparr>path = ''/tmp/file1.txt'', state = oneState, status = READ_ERROR,
           firstReadAt = 1000, lastUpdatedAt = 1000, error = Some ''ENOENT''\<rparr> \<and>
   getFileStatus (registerFile ''/tmp/file1.txt'' helloState 1000 1000 1001 svc_small_error)
     ''/tmp/file1.txt'' = None"
proof -
  have "reachable svc_small_error"
    unfolding svc_small_error_def svc_small_full_def by (intro reachable.intros)
  then show ?thesis
    by (simp add: svc_small_error_def svc_small_full_def getFileStatus_def refreshFileState_def
          refresh_catch_def fixture_defs)
qed

subsection \<open>The capacity bound\<close>

text \<open>
  C1. The scenario of the test \<open>should enforce maximum tracked files limit\<close> with all clock
  readings in one millisecond: \<open>evictOldestEntry\<close> starts from \<open>oldestTime = new Date()\<close>
  and only takes entries that are strictly older, so it finds none, nothing is evicted and
  the map holds three entries with \<open>maxTrackedFiles = 2\<close>.
\<close>

theorem registerFile_same_millisecond:
  "maxTrackedFiles (options svc_small_full) = 2 \<and>
   map fst (trackedFiles svc_small_full) = [''/tmp/file1.txt'', ''/tmp/file2.txt'', ''/tmp/file3.txt''] \<and>
   length (trackedFiles svc_small_full) = 3"
  by (simp add: svc_small_full_def fixture_defs)

text \<open>
  X1. When some tracked entry is strictly older than the clock reading of the eviction and no
  tracked path is the empty string, \<open>evictOldestEntry\<close> removes exactly one entry: the
  first one in insertion order among those with the smallest \<open>firstReadAt\<close>.
\<close>

theorem evictOldestEntry_oldest:
  assumes "distinct (map fst (trackedFiles svc))"
      and "[] \<notin> fst ` set (trackedFiles svc)"
      and "\<exists>kv \<in> set (trackedFiles svc). firstReadAt (snd kv) < now"
  shows "\<exists>pre p entry post.
           trackedFiles svc = pre @ (p, entry) # post \<and>
           trackedFiles (evictOldestEntry now svc) = pre @ post \<and>
           (\<forall>kv \<in> set pre. firstReadAt entry < firstReadAt (snd kv)) \<and>
           (\<forall>kv \<in> set post. firstReadAt entry \<le> firstReadAt (snd kv))"
  using assms by (rule evictOldestEntry_split)

theorem evictOldestEntry_oldest_witness:
  "distinct (map fst (trackedFiles svc_two)) \<and>
   [] \<notin> fst ` set (trackedFiles svc_two) \<and>
   (\<exists>kv \<in> set (trackedFiles svc_two). firstReadAt (snd kv) < 1002) \<and>
   (\<exists>pre p entry post.
           trackedFiles svc_two = pre @ (p, entry) # post \<and>
           trackedFiles (evictOldestEntry 1002 svc_two) = pre @ post \<and>
           (\<forall>kv \<in> set pre. firstReadAt entry < firstReadAt (snd kv)) \<and>
           (\<forall>kv \<in> set post. firstReadAt entry \<le> firstReadAt (snd kv))) \<and>
   map fst (trackedFiles (evictOldestEntry 1002 svc_two)) = [''/tmp/file2.txt'']"
proof -
  have d: "distinct (map fst (trackedFiles svc_two))" by (simp add: fixture_defs)
  have n: "[] \<notin> fst ` set (trackedFiles svc_two)" by (simp add: fixture_defs)
  have c: "\<exists>kv \<in> set (trackedFiles svc_two). firstReadAt (snd kv) < 1002"
    by (simp add: fixture_defs)
  have r: "map fst (trackedFiles (evictOldestEntry 1002 svc_two)) = [''/tmp/file2.txt'']"
    by (simp add: fixture_defs)
  from evictOldestEntry_oldest[OF d n c] show ?thesis using d n c r by blast
qed

text \<open>
  X2. When the clock reading of the eviction is strictly later than the one stored as
  \<open>firstReadAt\<close> by the same call, and no path is the empty string, \<open>registerFile\<close> keeps
  a service within its capacity.
\<close>

theorem registerFile_capacity:
  assumes "distinct (map fst (trackedFiles svc))"
      and "[] \<notin> fst ` set (trackedFiles svc)" and "filePath \<noteq> []"
      and "int (length (trackedFiles svc)) \<le> maxTrackedFiles (options svc)"
      and "t_first < t_evict"
  shows "int (length (trackedFiles (registerFile filePath st t_first t_last t_evict svc)))
           \<le> maxTrackedFiles (options (registerFile filePath st t_first t_last t_evict svc))"
proof -
  let ?e = "\<lparr>path = filePath, state = st, status = READ_CURRENT,
                   firstReadAt = t_first, lastUpdatedAt = t_last, error = None\<rparr>"
  let ?svc1 = "svc\<lparr>trackedFiles := AList.update filePath ?e (trackedFiles svc)\<rparr>"
  show ?thesis
  proof (cases "int (length (trackedFiles ?svc1)) > maxTrackedFiles (options ?svc1)")
    case False
    then show ?thesis by (simp add: registerFile_def Let_def)
  next
    case True
    have d: "distinct (map fst (trackedFiles ?svc1))"
      using assms(1) by (simp add: distinct_update)
    have n: "[] \<notin> fst ` set (trackedFiles ?svc1)"
      using assms(2,3) by (simp add: dom_update)
    have "map_of (trackedFiles ?svc1) filePath = Some ?e" by (simp add: update_conv')
    then have "(filePath, ?e) \<in> set (trackedFiles ?svc1)" by (rule map_of_SomeD)
    then have c: "\<exists>kv \<in> set (trackedFiles ?svc1). firstReadAt (snd kv) < t_evict"
      using assms(5) by force
    from evictOldestEntry_split[OF d n c]
    obtain pre p entry post where
      "trackedFiles ?svc1 = pre @ (p, entry) # post"
      "trackedFiles (evictOldestEntry t_evict ?svc1) = pre @ post"
      by blast
    then have "length (trackedFiles (evictOldestEntry t_evict ?svc1)) + 1 = length (trackedFiles ?svc1)"
      by simp
    moreover have "length (trackedFiles ?svc1) \<le> length (trackedFiles svc) + 1"
      by (simp add: length_update_if)
    moreover have "options (evictOldestEntry t_evict ?svc1) = options svc"
      by (simp add: evictOldestEntry_def split: option.splits)
    moreover have "registerFile filePath st t_first t_last t_evict svc = evictOldestEntry t_evict ?svc1"
      using True by (simp add: registerFile_def Let_def)
    ultimately show ?thesis using assms(4) by simp
  qed
qed

theorem registerFile_capacity_witness:
  "distinct (map fst (trackedFiles svc_cap1_one)) \<and>
   [] \<notin> fst ` set (trackedFiles svc_cap1_one) \<and> ''/tmp/b.txt'' \<noteq> [] \<and>
   int (length (trackedFiles svc_cap1_one)) \<le> maxTrackedFiles (options svc_cap1_one) \<and>
   (1000 :: int) < 1001 \<and>
   int (length (trackedFiles (registerFile ''/tmp/b.txt'' oneState 1000 1000 1001 svc_cap1_one)))
     \<le> maxTrackedFiles (options (registerFile ''/tmp/b.txt'' oneState 1000 1000 1001 svc_cap1_one)) \<and>
   map fst (trackedFiles (registerFile ''/tmp/b.txt'' oneState 1000 1000 1001 svc_cap1_one)) = [''/tmp/b.txt'']"
proof -
  have d: "distinct (map fst (trackedFiles svc_cap1_one))" by (simp add: fixture_defs)
  have n: "[] \<notin> fst ` set (trackedFiles svc_cap1_one)" by (simp add: fixture_defs)
  have p: "''/tmp/b.txt'' \<noteq> []" by simp
  have c: "int (length (trackedFiles svc_cap1_one)) \<le> maxTrackedFiles (options svc_cap1_one)"
    by (simp add: fixture_defs)
  have t: "(1000 :: int) < 1001" by simp
  have r: "map fst (trackedFiles (registerFile ''/tmp/b.txt'' oneState 1000 1000 1001 svc_cap1_one)) = [''/tmp/b.txt'']"
    by (simp add: fixture_defs)
  from registerFile_capacity[OF d n p c t, of oneState 1000] show ?thesis using d n c r by simp
qed

text \<open>
  X3. A path that was not tracked is still tracked after \<open>registerFile\<close> when some other
  tracked entry is at least as old as the new one (the clock did not go backwards).
\<close>

theorem registerFile_keeps_new_entry:
  assumes "distinct (map fst (trackedFiles svc))"
      and "filePath \<notin> fst ` set (trackedFiles svc)"
      and "\<exists>kv \<in> set (trackedFiles svc). firstReadAt (snd kv) \<le> t_first"
  shows "getFileStatus (registerFile filePath st t_first t_last t_evict svc) filePath =
           Some \<lparr>path = filePath, state = st, status = READ_CURRENT,
                 firstReadAt = t_first, lastUpdatedAt = t_last, error = None\<rparr>"
  using assms by (rule registerFile_new_entry_kept)

theorem registerFile_keeps_new_entry_witness:
  "distinct (map fst (trackedFiles svc_cap1_one)) \<and>
   ''/tmp/b.txt'' \<notin> fst ` set (trackedFiles svc_cap1_one) \<and>
   (\<exists>kv \<in> set (trackedFiles svc_cap1_one). firstReadAt (snd kv) \<le> 1000) \<and>
   getFileStatus (registerFile ''/tmp/b.txt'' oneState 1000 1000 1001 svc_cap1_one) ''/tmp/b.txt'' =
     Some \<lparr>path = ''/tmp/b.txt'', state = oneState, status = READ_CURRENT,
           firstReadAt = 1000, lastUpdatedAt = 1000, error = None\<rparr>"
proof -
  have d: "distinct (map fst (trackedFiles svc_cap1_one))" by (simp add: fixture_defs)
  have k: "''/tmp/b.txt'' \<notin> fst ` set (trackedFiles svc_cap1_one)" by (simp add: fixture_defs)
  have c: "\<exists>kv \<in> set (trackedFiles svc_cap1_one). firstReadAt (snd kv) \<le> 1000"
    by (simp add: fixture_defs)
  from registerFile_keeps_new_entry[OF d k c, of oneState 1000 1001] show ?thesis using d k c by simp
qed

text \<open>
  X4. Scenario A of the specification, with a clock that advances at every reading: the
  first of three files is evicted and the other two stay.
\<close>

theorem registerFile_scenario_a:
  "getFileStatus svc_small_ticking ''/tmp/file1.txt'' = None \<and>
   map fst (trackedFiles svc_small_ticking) = [''/tmp/file2.txt'', ''/tmp/file3.txt''] \<and>
   int (length (trackedFiles svc_small_ticking)) = maxTrackedFiles (options svc_small_ticking)"
  by (simp add: getFileStatus_def fixture_defs)

subsection \<open>Updating a tracked file\<close>

text \<open>
  C3. For a tracked path, \<open>updateFileState\<close> resolves, stores the new snapshot in the entry
  and sets \<open>lastUpdatedAt\<close> to the clock reading whatever the comparison answers; the
  status follows the comparison: fresh gives \<open>READ_CURRENT\<close>, not fresh gives \<open>READ_STALE\<close>
  (and both clear the error), a rejected comparison gives \<open>READ_ERROR\<close> with the thrown
  value's message in \<open>error\<close>. The path and \<open>firstReadAt\<close> stay as they were.
\<close>

theorem updateFileState_tracked:
  assumes "getFileStatus svc filePath = Some entry"
  shows "fst (updateFileState stateTracker now filePath newState svc) = Inr () \<and>
         (\<exists>entry'. getFileStatus (snd (updateFileState stateTracker now filePath newState svc)) filePath = Some entry' \<and>
            state entry' = newState \<and> lastUpdatedAt entry' = now \<and>
            path entry' = path entry \<and> firstReadAt entry' = firstReadAt entry \<and>
            (case checkFreshness stateTracker filePath newState of
               Inr r \<Rightarrow> status entry' = (if isFresh r then READ_CURRENT else READ_STALE) \<and> error entry' = None
             | Inl err \<Rightarrow> status entry' = READ_ERROR \<and> error entry' = Some (errorMessage err)))"
  using assms
  by (auto simp: updateFileState_def getFileStatus_def Let_def update_conv' split: sum.splits)

theorem updateFileState_tracked_witness:
  "getFileStatus svc_one ''/tmp/test.txt'' =
     Some \<lparr>path = ''/tmp/test.txt'', state = helloState, status = READ_CURRENT,
           firstReadAt = 1000, lastUpdatedAt = 1000, error = None\<rparr> \<and>
   fst (updateFileState tracker_enoent 2000 ''/tmp/test.txt'' universeState svc_one) = Inr () \<and>
   (\<exists>entry'. getFileStatus (snd (updateFileState tracker_enoent 2000 ''/tmp/test.txt'' universeState svc_one))
                ''/tmp/test.txt'' = Some entry' \<and>
      state entry' = universeState \<and> lastUpdatedAt entry' = 2000 \<and>
      path entry' = ''/tmp/test.txt'' \<and> firstReadAt entry' = 1000 \<and>
      status entry' = READ_ERROR \<and> error entry' = Some ''ENOENT'')"
proof -
  have h: "getFileStatus svc_one ''/tmp/test.txt'' =
     Some \<lparr>path = ''/tmp/test.txt'', state = helloState, status = READ_CURRENT,
           firstReadAt = 1000, lastUpdatedAt = 1000, error = None\<rparr>"
    by (simp add: getFileStatus_def fixture_defs)
  from updateFileState_tracked[OF h, of tracker_enoent 2000 universeState]
  show ?thesis using h by (simp add: tracker_enoent_def)
qed

text \<open>
  C4. For a path that is not tracked, \<open>updateFileState\<close> rejects with an \<open>Error\<close> whose
  message is \<open>File not tracked: \<close> followed by the path, and the service is returned as it
  was: no entry appears for the path.
\<close>

theorem updateFileState_untracked:
  assumes "getFileStatus svc filePath = None"
  shows "updateFileState stateTracker now filePath newState svc =
           (Inl (ErrorObject (''File not tracked: '' @ filePath)), svc) \<and>
         suffix filePath (errorMessage (ErrorObject (''File not tracked: '' @ filePath))) \<and>
         getFileStatus (snd (updateFileState stateTracker now filePath newState svc)) filePath = None"
  using assms
  by (auto simp: updateFileState_def getFileStatus_def suffix_def)

theorem updateFileState_untracked_witness:
  "getFileStatus svc_one ''/tmp/other.txt'' = None \<and>
   updateFileState tracker_unchanged 2000 ''/tmp/other.txt'' universeState svc_one =
     (Inl (ErrorObject ''File not tracked: /tmp/other.txt''), svc_one) \<and>
   getFileStatus (snd (updateFileState tracker_unchanged 2000 ''/tmp/other.txt'' universeState svc_one))
     ''/tmp/other.txt'' = None"
proof -
  have h: "getFileStatus svc_one ''/tmp/other.txt'' = None"
    by (simp add: getFileStatus_def fixture_defs)
  from updateFileState_untracked[OF h, of tracker_unchanged 2000 universeState]
  show ?thesis using h by simp
qed

subsection \<open>Refreshing a file\<close>

text \<open>
  C2. \<open>refreshFileState\<close> on an untracked path returns false and the service
  as it was. On a tracked path whose capture (\<open>getFileState\<close>) succeeds it returns true,
  the new snapshot is stored and \<open>lastUpdatedAt\<close> is the clock reading of the update; the
  status is the one \<open>updateFileState\<close> sets from comparing the new snapshot:
  \<open>READ_CURRENT\<close> exactly when the comparison answers fresh, \<open>READ_STALE\<close> when it answers
  not fresh, \<open>READ_ERROR\<close> when it is rejected. On a tracked path the boolean returned
  says whether the capture succeeded.
\<close>

theorem refreshFileState_outcome:
  "(getFileStatus svc filePath = None \<longrightarrow>
      refreshFileState stateTracker t_update t_catch filePath svc = (False, svc)) \<and>
   (\<forall>entry newState.
      getFileStatus svc filePath = Some entry \<and> getFileState stateTracker filePath = Inr newState \<longrightarrow>
      fst (refreshFileState stateTracker t_update t_catch filePath svc) = True \<and>
      (\<exists>entry'. getFileStatus (snd (refreshFileState stateTracker t_update t_catch filePath svc)) filePath
                   = Some entry' \<and>
         state entry' = newState \<and> lastUpdatedAt entry' = t_update \<and>
         status entry' =
           (case checkFreshness stateTracker filePath newState of
              Inr r \<Rightarrow> if isFresh r then READ_CURRENT else READ_STALE
            | Inl err \<Rightarrow> READ_ERROR) \<and>
         (status entry' = READ_CURRENT \<longleftrightarrow>
            (\<exists>r. checkFreshness stateTracker filePath newState = Inr r \<and> isFresh r)))) \<and>
   (\<forall>entry. getFileStatus svc filePath = Some entry \<longrightarrow>
      (fst (refreshFileState stateTracker t_update t_catch filePath svc) \<longleftrightarrow>
         (\<exists>newState. getFileState stateTracker filePath = Inr newState)))"
  by (auto simp: refreshFileState_def getFileStatus_def updateFileState_def Let_def update_conv'
           split: sum.splits option.splits)

theorem refreshFileState_outcome_witness:
  "getFileStatus svc_one ''/tmp/other.txt'' = None \<and>
   refreshFileState tracker_unchanged 2000 2001 ''/tmp/other.txt'' svc_one = (False, svc_one) \<and>
   getFileStatus svc_one ''/tmp/test.txt'' =
     Some \<lparr>path = ''/tmp/test.txt'', state = helloState, status = READ_CURRENT,
           firstReadAt = 1000, lastUpdatedAt = 1000, error = None\<rparr> \<and>
   getFileState tracker_unchanged ''/tmp/test.txt'' = Inr universeState \<and>
   fst (refreshFileState tracker_unchanged 2000 2001 ''/tmp/test.txt'' svc_one) = True \<and>
   getFileStatus (snd (refreshFileState tracker_unchanged 2000 2001 ''/tmp/test.txt'' svc_one)) ''/tmp/test.txt'' =
     Some \<lparr>path = ''/tmp/test.txt'', state = universeState, status = READ_CURRENT,
           firstReadAt = 1000, lastUpdatedAt = 2000, error = None\<rparr>"
proof -
  have n: "getFileStatus svc_one ''/tmp/other.txt'' = None"
    by (simp add: getFileStatus_def fixture_defs)
  have h: "getFileStatus svc_one ''/tmp/test.txt'' =
     Some \<lparr>path = ''/tmp/test.txt'', state = helloState, status = READ_CURRENT,
           firstReadAt = 1000, lastUpdatedAt = 1000, error = None\<rparr>"
    by (simp add: getFileStatus_def fixture_defs)
  have g: "getFileState tracker_unchanged ''/tmp/test.txt'' = Inr universeState"
    by (simp add: tracker_unchanged_def)
  have r: "getFileStatus (snd (refreshFileState tracker_unchanged 2000 2001 ''/tmp/test.txt'' svc_one)) ''/tmp/test.txt'' =
     Some \<lparr>path = ''/tmp/test.txt'', state = universeState, status = READ_CURRENT,
           firstReadAt = 1000, lastUpdatedAt = 2000, error = None\<rparr>"
    by (simp add: refreshFileState_def updateFileState_def getFileStatus_def fixture_defs)
  from refreshFileState_outcome[of svc_one "''/tmp/other.txt''" tracker_unchanged 2000 2001]
       refreshFileState_outcome[of svc_one "''/tmp/test.txt''" tracker_unchanged 2000 2001]
  show ?thesis using n h g r by simp
qed

text \<open>
  C2, the boolean is not whether the entry ends in \<open>READ_CURRENT\<close>: when the file changes
  between the capture and the comparison, the call returns true and the entry ends in
  \<open>READ_STALE\<close>.
\<close>

theorem refreshFileState_true_but_stale:
  "fst (refreshFileState tracker_changed 2000 2001 ''/tmp/test.txt'' svc_one) = True \<and>
   map_option status (getFileStatus (snd (refreshFileState tracker_changed 2000 2001 ''/tmp/test.txt'' svc_one))
      ''/tmp/test.txt'') = Some READ_STALE \<and>
   \<not> (fst (refreshFileState tracker_changed 2000 2001 ''/tmp/test.txt'' svc_one) \<longleftrightarrow>
      map_option status (getFileStatus (snd (refreshFileState tracker_changed 2000 2001 ''/tmp/test.txt'' svc_one))
      ''/tmp/test.txt'') = Some READ_CURRENT)"
  by (simp add: refreshFileState_def updateFileState_def getFileStatus_def fixture_defs)

subsection \<open>Refreshing when the file cannot be read\<close>

text \<open>
  C5. For a tracked path whose capture (\<open>getFileState\<close>) is rejected, \<open>refreshFileState\<close>
  returns false, and the entry is the old one with status \<open>READ_ERROR\<close>, the thrown
  value's message as \<open>error\<close> and \<open>lastUpdatedAt\<close> set to the clock reading of the
  \<open>catch\<close> block; in particular the stored snapshot is the one it had.
\<close>

theorem refreshFileState_capture_fails:
  assumes "getFileStatus svc filePath = Some entry"
      and "getFileState stateTracker filePath = Inl err"
  shows "fst (refreshFileState stateTracker t_update t_catch filePath svc) = False \<and>
         getFileStatus (snd (refreshFileState stateTracker t_update t_catch filePath svc)) filePath =
           Some (entry\<lparr>status := READ_ERROR, error := Some (errorMessage err), lastUpdatedAt := t_catch\<rparr>)"
  using assms
  by (auto simp: refreshFileState_def getFileStatus_def refresh_catch_def map_of_map_entry_same)

theorem refreshFileState_capture_fails_witness:
  "getFileStatus svc_one ''/tmp/test.txt'' =
     Some \<lparr>path = ''/tmp/test.txt'', state = helloState, status = READ_CURRENT,
           firstReadAt = 1000, lastUpdatedAt = 1000, error = None\<rparr> \<and>
   getFileState tracker_enoent ''/tmp/test.txt'' = Inl (ErrorObject ''ENOENT'') \<and>
   fst (refreshFileState tracker_enoent 2000 2001 ''/tmp/test.txt'' svc_one) = False \<and>
   getFileStatus (snd (refreshFileState tracker_enoent 2000 2001 ''/tmp/test.txt'' svc_one))
     ''/tmp/test.txt'' =
     Some \<lparr>path = ''/tmp/test.txt'', state = helloState, status = READ_ERROR,
           firstReadAt = 1000, lastUpdatedAt = 2001, error = Some ''ENOENT''\<rparr>"
proof -
  have h: "getFileStatus svc_one ''/tmp/test.txt'' =
     Some \<lparr>path = ''/tmp/test.txt'', state = helloState, status = READ_CURRENT,
           firstReadAt = 1000, lastUpdatedAt = 1000, error = None\<rparr>"
    by (simp add: getFileStatus_def fixture_defs)
  have g: "getFileState tracker_enoent ''/tmp/test.txt'' = Inl (ErrorObject ''ENOENT'')"
    by (simp add: tracker_enoent_def)
  from refreshFileState_capture_fails[OF h g, of 2000 2001]
  show ?thesis using h g by simp
qed

subsection \<open>Staleness queries\<close>

text \<open>
  C6. For a tracked path whose comparison (\<open>checkFreshness\<close> on the stored snapshot) is
  rejected, \<open>isFileStale\<close> answers true and leaves the whole service, and so every field
  of the entry, as it was.
\<close>

theorem isFileStale_compare_fails:
  assumes "getFileStatus svc filePath = Some entry"
      and "checkFreshness stateTracker filePath (state entry) = Inl err"
  shows "isFileStale stateTracker filePath svc = (True, svc)"
  using assms by (simp add: isFileStale_def getFileStatus_def)

theorem isFileStale_compare_fails_witness:
  "getFileStatus svc_one ''/tmp/test.txt'' =
     Some \<lparr>path = ''/tmp/test.txt'', state = helloState, status = READ_CURRENT,
           firstReadAt = 1000, lastUpdatedAt = 1000, error = None\<rparr> \<and>
   checkFreshness tracker_enoent ''/tmp/test.txt'' helloState = Inl (ErrorObject ''ENOENT'') \<and>
   isFileStale tracker_enoent ''/tmp/test.txt'' svc_one = (True, svc_one)"
proof -
  have h: "getFileStatus svc_one ''/tmp/test.txt'' =
     Some \<lparr>path = ''/tmp/test.txt'', state = helloState, status = READ_CURRENT,
           firstReadAt = 1000, lastUpdatedAt = 1000, error = None\<rparr>"
    by (simp add: getFileStatus_def fixture_defs)
  have g: "checkFreshness tracker_enoent ''/tmp/test.txt''
             (state \<lparr>path = ''/tmp/test.txt'', state = helloState, status = READ_CURRENT,
                     firstReadAt = 1000, lastUpdatedAt = 1000, error = None\<rparr>)
           = Inl (ErrorObject ''ENOENT'')"
    by (simp add: tracker_enoent_def)
  from isFileStale_compare_fails[OF h g]
  show ?thesis using h g by simp
qed

text \<open>
  C7. For a path that is not a key of the map (never registered, or removed or evicted
  since), \<open>isFileStale\<close> answers false and \<open>getFileStatus\<close> answers \<open>undefined\<close>.
\<close>

theorem untracked_queries:
  assumes "filePath \<notin> fst ` set (trackedFiles svc)"
  shows "fst (isFileStale stateTracker filePath svc) = False \<and> getFileStatus svc filePath = None"
proof -
  from assms have "map_of (trackedFiles svc) filePath = None" by (simp add: map_of_eq_None_iff)
  then show ?thesis by (simp add: isFileStale_def getFileStatus_def)
qed

theorem untracked_queries_witness:
  "''/tmp/file1.txt'' \<notin> fst ` set (trackedFiles (snd (removeFile ''/tmp/file1.txt'' svc_two))) \<and>
   fst (isFileStale tracker_changed ''/tmp/file1.txt'' (snd (removeFile ''/tmp/file1.txt'' svc_two))) = False \<and>
   getFileStatus (snd (removeFile ''/tmp/file1.txt'' svc_two)) ''/tmp/file1.txt'' = None"
proof -
  have h: "''/tmp/file1.txt'' \<notin> fst ` set (trackedFiles (snd (removeFile ''/tmp/file1.txt'' svc_two)))"
    by (simp add: removeFile_def fixture_defs)
  from untracked_queries[OF h, of tracker_changed]
  show ?thesis using h by simp
qed

subsection \<open>Statistics\<close>

text \<open>
  C8. For every reachable service, \<open>getStats\<close> holds a count for each of the four
  statuses, the four counts add up to the number of tracked files, and the count of
  \<open>NOT_READ\<close> is zero.
\<close>

theorem getStats_totals:
  assumes "reachable svc"
  shows "\<exists>a b c d.
           getStats svc NOT_READ = Some (Num a) \<and>
           getStats svc READ_CURRENT = Some (Num b) \<and>
           getStats svc READ_STALE = Some (Num c) \<and>
           getStats svc READ_ERROR = Some (Num d) \<and>
           a + b + c + d = length (trackedFiles svc) \<and> a = 0"
proof -
  have "length (getFilesByStatus svc NOT_READ) = 0"
    using reachable_entries_ok[OF assms]
    by (simp add: getFilesByStatus_def getAllTrackedFiles_def entries_ok_no_not_read)
  moreover have "length (getFilesByStatus svc NOT_READ) + length (getFilesByStatus svc READ_CURRENT) +
        length (getFilesByStatus svc READ_STALE) + length (getFilesByStatus svc READ_ERROR)
        = length (trackedFiles svc)"
    using status_partition[of "map snd (trackedFiles svc)"]
    by (simp add: getFilesByStatus_def getAllTrackedFiles_def)
  ultimately show ?thesis
    by (simp add: getStats_count)
qed

theorem getStats_totals_witness:
  "reachable svc_two \<and>
   (\<exists>a b c d.
      getStats svc_two NOT_READ = Some (Num a) \<and>
      getStats svc_two READ_CURRENT = Some (Num b) \<and>
      getStats svc_two READ_STALE = Some (Num c) \<and>
      getStats svc_two READ_ERROR = Some (Num d) \<and>
      a + b + c + d = length (trackedFiles svc_two) \<and> a = 0) \<and>
   length (trackedFiles svc_two) = 2"
proof -
  have h: "reachable svc_two"
    unfolding svc_two_def by (intro reachable.intros)
  have l: "length (trackedFiles svc_two) = 2"
    by (simp add: fixture_defs)
  from getStats_totals[OF h] show ?thesis using h l by simp
qed

end
